theory Spec2Isabelle
  imports Complex_Main "HOL-Library.Sublist" "HOL-Library.Multiset"
begin

section \<open>JavaScript strings\<close>

text \<open>
  The generator in \<^verbatim>\<open>model/spec.ts\<close> is string assembly. A JavaScript string is
  modelled as a \<^typ>\<open>string\<close>; every \<^typ>\<open>char\<close> stands for one code unit in the range
  0..255 (Latin-1). The functions below are the string methods the source calls, with
  the behaviour of ECMAScript on such strings.
\<close>

text \<open>White space as \<^verbatim>\<open>trim\<close>, \<^verbatim>\<open>trimStart\<close> and the regular expression class
  \<^verbatim>\<open>\s\<close> read it: TAB, LF, VT, FF, CR, SPACE and NBSP.\<close>

definition isSpace :: "char \<Rightarrow> bool" where
  "isSpace c \<longleftrightarrow>
     c = CHR 0x09 \<or> c = CHR 0x0A \<or> c = CHR 0x0B \<or> c = CHR 0x0C \<or> c = CHR 0x0D \<or>
     c = CHR 0x20 \<or> c = CHR 0xA0"

definition trimStart :: "string \<Rightarrow> string" where
  "trimStart s = dropWhile isSpace s"

definition trimEnd :: "string \<Rightarrow> string" where
  "trimEnd s = rev (dropWhile isSpace (rev s))"

definition trim :: "string \<Rightarrow> string" where
  "trim s = trimEnd (trimStart s)"

text \<open>\<^verbatim>\<open>s.split(c)\<close> for a one-character separator: never the empty array.\<close>

fun split_str :: "char \<Rightarrow> string \<Rightarrow> string list" where
  "split_str c [] = [[]]"
| "split_str c (x # xs) =
     (if x = c then [] # split_str c xs
      else (case split_str c xs of [] \<Rightarrow> [[x]] | y # ys \<Rightarrow> (x # y) # ys))"

text \<open>\<^verbatim>\<open>xs.join(sep)\<close>.\<close>

fun join_str :: "string \<Rightarrow> string list \<Rightarrow> string" where
  "join_str sep [] = []"
| "join_str sep [x] = x"
| "join_str sep (x # y # ys) = x @ sep @ join_str sep (y # ys)"

definition startsWith :: "string \<Rightarrow> string \<Rightarrow> bool" where
  "startsWith s p = prefix p s"

definition endsWith :: "string \<Rightarrow> string \<Rightarrow> bool" where
  "endsWith s p = suffix p s"

text \<open>\<^verbatim>\<open>s || d\<close> on strings: the empty string is the only falsy one.\<close>

definition orElse :: "string \<Rightarrow> string \<Rightarrow> string" where
  "orElse s d = (if s = [] then d else s)"

text \<open>\<^verbatim>\<open>toLowerCase\<close> on Latin-1: A..Z and the accented capitals (but not the
  multiplication sign 0xD7) move up by 32.\<close>

definition lowerChar :: "char \<Rightarrow> char" where
  "lowerChar c =
     (let n = (of_char c :: nat)
      in if (65 \<le> n \<and> n \<le> 90) \<or> (192 \<le> n \<and> n \<le> 222 \<and> n \<noteq> 215)
         then char_of (n + 32) else c)"

definition toLowerCase :: "string \<Rightarrow> string" where
  "toLowerCase s = map lowerChar s"

section \<open>Declarations and their rendering\<close>

datatype DeclKind = KVar | KConst | KVal | KDef | KAction | KType | KAssume

datatype Role = RInit | RStep | RInvariant

text \<open>\<^verbatim>\<open>interface VisualDeclaration\<close>; the optional fields are options.\<close>

record VisualDeclaration =
  decl_id :: string
  kind :: DeclKind
  name :: string
  type :: string
  params :: string
  body :: string
  role :: "Role option"
  pure :: "bool option"

text \<open>The keyword a kind is written with (the string value of \<^verbatim>\<open>d.kind\<close>).\<close>

fun kindText :: "DeclKind \<Rightarrow> string" where
  "kindText KVar = ''var''"
| "kindText KConst = ''const''"
| "kindText KVal = ''val''"
| "kindText KDef = ''def''"
| "kindText KAction = ''action''"
| "kindText KType = ''type''"
| "kindText KAssume = ''assume''"

definition indentLines :: "string \<Rightarrow> string \<Rightarrow> string" where
  "indentLines text indent =
     join_str ''\<newline>'' (map (\<lambda>l. indent @ l) (split_str CHR 0x0A text))"

text \<open>The test \<^verbatim>\<open>/^\s*(nondet|val)\s/\<close> on one line: after the leading white space
  comes \<^verbatim>\<open>nondet\<close> or \<^verbatim>\<open>val\<close> and then one white-space character.\<close>

definition bindingLine :: "string \<Rightarrow> bool" where
  "bindingLine l =
     (let r = dropWhile isSpace l
      in (prefix ''nondet'' r \<and> (case drop 6 r of [] \<Rightarrow> False | c # _ \<Rightarrow> isSpace c)) \<or>
         (prefix ''val'' r \<and> (case drop 3 r of [] \<Rightarrow> False | c # _ \<Rightarrow> isSpace c)))"

definition hasBindings :: "string \<Rightarrow> bool" where
  "hasBindings b = list_ex bindingLine (split_str CHR 0x0A b)"

definition alreadyWrapped :: "string \<Rightarrow> bool" where
  "alreadyWrapped b =
     (startsWith (trimStart b) ''all '' \<or> startsWith (trimStart b) ''any '')"

text \<open>The clauses of the implicit conjunction block: the trimmed non-empty lines, each
  with a trailing comma (added when missing) behind four spaces.\<close>

definition clausesOf :: "string \<Rightarrow> string" where
  "clausesOf b =
     join_str ''\<newline>''
       (map (\<lambda>l. ''    '' @ (if endsWith l '','' then l else l @ '',''))
          (filter (\<lambda>l. l \<noteq> []) (map trim (split_str CHR 0x0A b))))"

definition declToQuint :: "VisualDeclaration \<Rightarrow> string" where
  "declToQuint d =
     (let nm = orElse (name d) ''_unnamed''
      in case kind d of
        KVar \<Rightarrow> ''  '' @ kindText (kind d) @ '' '' @ nm @ '': '' @ orElse (type d) ''int''
      | KConst \<Rightarrow> ''  '' @ kindText (kind d) @ '' '' @ nm @ '': '' @ orElse (type d) ''int''
      | KVal \<Rightarrow>
          (let pureVal = (if pure d = Some True then ''pure '' else '''')
           in ''  '' @ pureVal @ ''val '' @ nm @
              (if type d \<noteq> [] then '': '' @ type d else '''') @ '' = '' @ orElse (body d) ''???'')
      | KType \<Rightarrow> ''  type '' @ nm @ '' = '' @ orElse (body d) ''int''
      | KAssume \<Rightarrow> ''  assume '' @ nm @ '' = '' @ orElse (body d) ''true''
      | _ \<Rightarrow>
          (let pureDef = (if pure d = Some True \<and> kind d = KDef then ''pure '' else '''');
               ps = (if params d \<noteq> [] then ''('' @ params d @ '')'' else '''');
               ret = (if type d \<noteq> [] then '': '' @ type d else '''');
               b = orElse (body d) ''???''
           in if CHR 0x0A \<in> set b then
                if kind d = KAction \<and> \<not> hasBindings b \<and> \<not> alreadyWrapped b then
                  ''  action '' @ nm @ ps @ ret @ '' = all {\<newline>'' @ clausesOf b @
                  ''\<newline>  }''
                else
                  ''  '' @ pureDef @ kindText (kind d) @ '' '' @ nm @ ps @ ret @
                  '' = {\<newline>'' @ indentLines b ''    '' @ ''\<newline>  }''
              else
                ''  '' @ pureDef @ kindText (kind d) @ '' '' @ nm @ ps @ ret @ '' = '' @ b))"

text \<open>\<^verbatim>\<open>KIND_ORDER\<close>: the sort key of a kind in the generated module.\<close>

fun KIND_ORDER :: "DeclKind \<Rightarrow> nat" where
  "KIND_ORDER KType = 0"
| "KIND_ORDER KConst = 1"
| "KIND_ORDER KVar = 2"
| "KIND_ORDER KVal = 3"
| "KIND_ORDER KDef = 4"
| "KIND_ORDER KAction = 5"
| "KIND_ORDER KAssume = 6"

section \<open>Synthesized orchestration\<close>

definition parseParamNames :: "string \<Rightarrow> string list" where
  "parseParamNames ps =
     (if trim ps = [] then []
      else filter (\<lambda>n. n \<noteq> [])
             (map (\<lambda>p. trim (hd (split_str CHR '':'' p))) (split_str CHR '','' ps)))"

text \<open>One step of the inner loop of \<^verbatim>\<open>collectUniqueParams\<close>. The \<^verbatim>\<open>Map\<close> is an
  association list in insertion order; a name is stored once, with \<^verbatim>\<open>int\<close> for a
  missing or empty type.\<close>

definition addParam :: "string \<Rightarrow> (string \<times> string) list \<Rightarrow> (string \<times> string) list" where
  "addParam part seen =
     (case map trim (split_str CHR '':'' part) of
        [] \<Rightarrow> seen
      | n # rest \<Rightarrow>
          (if n \<noteq> [] \<and> map_of seen n = None
           then seen @ [(n, (case rest of [] \<Rightarrow> ''int'' | t # _ \<Rightarrow> orElse t ''int''))]
           else seen))"

definition collectUniqueParams :: "VisualDeclaration list \<Rightarrow> (string \<times> string) list" where
  "collectUniqueParams actions =
     fold (\<lambda>a seen. if trim (params a) = [] then seen
                     else fold addParam (split_str CHR '','' (params a)) seen)
       actions []"

definition nondetRange :: "string \<Rightarrow> string" where
  "nondetRange ty =
     (let t = toLowerCase ty
      in if t = ''bool'' then ''Set(true, false)''
         else if t = ''str'' then ''Set(\"a\", \"b\", \"c\")''
         else ''1.to(100)'')"

definition initActions :: "VisualDeclaration list \<Rightarrow> VisualDeclaration list" where
  "initActions decls = filter (\<lambda>d. role d = Some RInit \<and> kind d = KAction) decls"

definition stepActions :: "VisualDeclaration list \<Rightarrow> VisualDeclaration list" where
  "stepActions decls = filter (\<lambda>d. role d = Some RStep \<and> kind d = KAction) decls"

definition hasExplicitInit :: "VisualDeclaration list \<Rightarrow> bool" where
  "hasExplicitInit decls = list_ex (\<lambda>d. name d = ''init'' \<and> kind d = KAction) decls"

definition hasExplicitStep :: "VisualDeclaration list \<Rightarrow> bool" where
  "hasExplicitStep decls = list_ex (\<lambda>d. name d = ''step'' \<and> kind d = KAction) decls"

definition needsInit :: "VisualDeclaration list \<Rightarrow> bool" where
  "needsInit decls \<longleftrightarrow>
     \<not> hasExplicitInit decls \<and>
     (length (initActions decls) > 1 \<or>
      (case initActions decls of [a] \<Rightarrow> name a \<noteq> ''init'' | _ \<Rightarrow> False))"

definition needsStep :: "VisualDeclaration list \<Rightarrow> bool" where
  "needsStep decls \<longleftrightarrow>
     \<not> hasExplicitStep decls \<and>
     (length (stepActions decls) > 1 \<or>
      (case stepActions decls of [a] \<Rightarrow> name a \<noteq> ''step'' | _ \<Rightarrow> False))"

text \<open>The first block of \<^verbatim>\<open>generateCombinedActions\<close>: what it pushes for the
  initializer.\<close>

definition combinedInit :: "VisualDeclaration list \<Rightarrow> string list" where
  "combinedInit decls =
     (if needsInit decls then
        (let calls = join_str '',\<newline>'' (map (\<lambda>a. ''    '' @ name a) (initActions decls))
         in case initActions decls of
              [a] \<Rightarrow> [''  action init = '' @ name a]
            | _ \<Rightarrow> [''  action init = all {\<newline>'' @ calls @ '',\<newline>  }''])
      else [])"

definition stepCall :: "VisualDeclaration \<Rightarrow> string" where
  "stepCall a =
     (let args = join_str '', '' (parseParamNames (params a))
      in ''    '' @ name a @ (if args \<noteq> [] then ''('' @ args @ '')'' else ''''))"

definition stepBinding :: "string \<times> string \<Rightarrow> string" where
  "stepBinding p = ''    nondet '' @ fst p @ '' = '' @ nondetRange (snd p) @ ''.oneOf()''"

text \<open>The second block: the combined step.\<close>

definition combinedStep :: "VisualDeclaration list \<Rightarrow> string list" where
  "combinedStep decls =
     (if needsStep decls then
        (let ps = collectUniqueParams (stepActions decls);
             calls = join_str '',\<newline>'' (map stepCall (stepActions decls))
         in if length ps > 0 then
              [''  action step = {\<newline>'' @ join_str ''\<newline>'' (map stepBinding ps) @
               ''\<newline>    any {\<newline>'' @ calls @ '',\<newline>    }\<newline>  }'']
            else [''  action step = any {\<newline>'' @ calls @ '',\<newline>  }''])
      else [])"

definition hasInit :: "VisualDeclaration list \<Rightarrow> bool" where
  "hasInit decls \<longleftrightarrow> length (initActions decls) > 0 \<or> hasExplicitInit decls"

definition hasStep :: "VisualDeclaration list \<Rightarrow> bool" where
  "hasStep decls \<longleftrightarrow> length (stepActions decls) > 0 \<or> hasExplicitStep decls"

definition invariants :: "VisualDeclaration list \<Rightarrow> VisualDeclaration list" where
  "invariants decls =
     filter (\<lambda>d. role d = Some RInvariant \<and> name d \<noteq> [] \<and> (kind d = KVal \<or> kind d = KDef)) decls"

text \<open>The third block: the test run.\<close>

definition combinedRun :: "VisualDeclaration list \<Rightarrow> string list" where
  "combinedRun decls =
     (if hasInit decls \<and> hasStep decls then
        (if length (invariants decls) > 0 then
           [''  run invariantTest = init.then(20.reps(_ => step.expect('' @
            join_str '' and '' (map name (invariants decls)) @ '')))'']
         else [''  run simulationTest = init.then(20.reps(_ => step))''])
      else [])"

definition generateCombinedActions :: "VisualDeclaration list \<Rightarrow> string list" where
  "generateCombinedActions decls = combinedInit decls @ combinedStep decls @ combinedRun decls"

text \<open>\<^verbatim>\<open>[...decls].sort((a, b) => KIND_ORDER[a.kind] - KIND_ORDER[b.kind])\<close>:
  \<^verbatim>\<open>Array.prototype.sort\<close> is stable, and so is \<^const>\<open>sort_key\<close>.\<close>

definition sortedDecls :: "VisualDeclaration list \<Rightarrow> VisualDeclaration list" where
  "sortedDecls decls = sort_key (\<lambda>d. KIND_ORDER (kind d)) decls"

definition declsToQuint :: "string \<Rightarrow> VisualDeclaration list \<Rightarrow> string" where
  "declsToQuint moduleName decls =
     (if length decls = 0 then ''module '' @ orElse moduleName ''Unnamed'' @ '' {\<newline>}''
      else
        (let lines = map declToQuint (sortedDecls decls);
             combined = generateCombinedActions decls;
             b = join_str ''\<newline>\<newline>'' (lines @ combined)
         in ''module '' @ orElse moduleName ''Unnamed'' @ '' {\<newline>'' @ b @ ''\<newline>}''))"

section \<open>The canvas store: nodes\<close>

text \<open>
  \<^verbatim>\<open>model/store.ts\<close>. A React Flow node, with the fields the layout functions read.
  Coordinates and sizes are JavaScript numbers; they are modelled as reals, so the
  rounding of IEEE doubles, NaN and the infinities are outside the model.
\<close>

record XYPosition =
  pos_x :: real
  pos_y :: real

record Dimensions =
  width :: "real option"
  height :: "real option"

text \<open>The \<^verbatim>\<open>style\<close> object, read as \<^verbatim>\<open>Record<string, number>\<close> as the source casts
  it.\<close>

type_synonym Style = "string \<rightharpoonup> real"

record Node =
  node_id :: string
  node_type :: "string option"
  parentId :: "string option"
  position :: XYPosition
  measured :: "Dimensions option"
  style :: "Style option"

definition GROUP_HEADER :: real where "GROUP_HEADER = 30"
definition COLLISION_PAD :: real where "COLLISION_PAD = 10"

text \<open>\<^verbatim>\<open>n.measured?.width ?? d\<close> and \<^verbatim>\<open>n.measured?.height ?? d\<close>.\<close>

definition measuredWidth :: "Node \<Rightarrow> real \<Rightarrow> real" where
  "measuredWidth n d =
     (case measured n of None \<Rightarrow> d | Some m \<Rightarrow> (case width m of None \<Rightarrow> d | Some w \<Rightarrow> w))"

definition measuredHeight :: "Node \<Rightarrow> real \<Rightarrow> real" where
  "measuredHeight n d =
     (case measured n of None \<Rightarrow> d | Some m \<Rightarrow> (case height m of None \<Rightarrow> d | Some h \<Rightarrow> h))"

subsection \<open>resizeGroups\<close>








subsection \<open>resolveCollisions\<close>




definition padW :: "Node \<Rightarrow> real" where
  "padW n = measuredWidth n 200 + COLLISION_PAD"

definition padH :: "Node \<Rightarrow> real" where
  "padH n = measuredHeight n 80 + COLLISION_PAD"







section \<open>The canvas store: history\<close>

record ('n, 'e) HistoryEntry =
  entry_nodes :: 'n
  entry_edges :: 'e
  entry_moduleName :: string

text \<open>The fields of \<^verbatim>\<open>AppState\<close> that \<^verbatim>\<open>pushHistory\<close>, \<^verbatim>\<open>undo\<close> and \<^verbatim>\<open>redo\<close> read
  or write; the other fields of the store are the extension of the record. Snapshots are
  deep copies, which are the values themselves here.\<close>

record ('n, 'e) AppState =
  nodes :: 'n
  edges :: 'e
  moduleName :: string
  history :: "('n, 'e) HistoryEntry list"
  historyIndex :: int

datatype error = TypeError

text \<open>\<^verbatim>\<open>xs.slice(0, e)\<close>: a negative end counts from the end of the array.\<close>

definition slice0 :: "'a list \<Rightarrow> int \<Rightarrow> 'a list" where
  "slice0 xs e =
     (if e < 0 then take (nat (max (int (length xs) + e) 0)) xs
      else take (nat (min e (int (length xs)))) xs)"

text \<open>\<^verbatim>\<open>xs[i]\<close>: \<^verbatim>\<open>undefined\<close> outside the array.\<close>

definition elemAt :: "'a list \<Rightarrow> int \<Rightarrow> 'a option" where
  "elemAt xs i = (if 0 \<le> i \<and> i < int (length xs) then Some (xs ! nat i) else None)"

definition pushHistory :: "('n, 'e, 'z) AppState_scheme \<Rightarrow> ('n, 'e, 'z) AppState_scheme" where
  "pushHistory s =
     (let entry = \<lparr>entry_nodes = nodes s, entry_edges = edges s, entry_moduleName = moduleName s\<rparr>;
          pushed = slice0 (history s) (historyIndex s + 1) @ [entry];
          newHistory = (if length pushed > 50 then tl pushed else pushed)
      in s\<lparr>history := newHistory, historyIndex := int (length newHistory) - 1\<rparr>)"

text \<open>Reading a field of \<^verbatim>\<open>undefined\<close> raises a \<^verbatim>\<open>TypeError\<close>.\<close>

definition undo :: "('n, 'e, 'z) AppState_scheme \<Rightarrow> error + ('n, 'e, 'z) AppState_scheme" where
  "undo s =
     (if historyIndex s \<le> 0 then Inr s
      else case elemAt (history s) (historyIndex s - 1) of
        None \<Rightarrow> Inl TypeError
      | Some entry \<Rightarrow>
          Inr (s\<lparr>nodes := entry_nodes entry, edges := entry_edges entry,
                 moduleName := entry_moduleName entry, historyIndex := historyIndex s - 1\<rparr>))"

definition redo :: "('n, 'e, 'z) AppState_scheme \<Rightarrow> error + ('n, 'e, 'z) AppState_scheme" where
  "redo s =
     (if historyIndex s \<ge> int (length (history s)) - 1 then Inr s
      else case elemAt (history s) (historyIndex s + 1) of
        None \<Rightarrow> Inl TypeError
      | Some entry \<Rightarrow>
          Inr (s\<lparr>nodes := entry_nodes entry, edges := entry_edges entry,
                 moduleName := entry_moduleName entry, historyIndex := historyIndex s + 1\<rparr>))"

text \<open>The operations of the store on the history, and \<open>Edit\<close> for every other action:
  those write \<^verbatim>\<open>nodes\<close>, \<^verbatim>\<open>edges\<close> or \<^verbatim>\<open>moduleName\<close> and never the history.\<close>

datatype ('n, 'e) operation = PushHistory | Undo | Redo | Edit 'n 'e string

fun apply_operation ::
  "('n, 'e) operation \<Rightarrow> ('n, 'e, 'z) AppState_scheme \<Rightarrow> error + ('n, 'e, 'z) AppState_scheme" where
  "apply_operation PushHistory s = Inr (pushHistory s)"
| "apply_operation Undo s = undo s"
| "apply_operation Redo s = redo s"
| "apply_operation (Edit n e m) s = Inr (s\<lparr>nodes := n, edges := e, moduleName := m\<rparr>)"

fun run ::
  "('n, 'e) operation list \<Rightarrow> ('n, 'e, 'z) AppState_scheme \<Rightarrow> error + ('n, 'e, 'z) AppState_scheme" where
  "run [] s = Inr s"
| "run (operation # rest) s =
     (case apply_operation operation s of Inl err \<Rightarrow> Inl err | Inr s' \<Rightarrow> run rest s')"

text \<open>The store as it is created: \<^verbatim>\<open>history: []\<close>, \<^verbatim>\<open>historyIndex: -1\<close>; the persisted
  part (\<^verbatim>\<open>nodes\<close>, \<^verbatim>\<open>edges\<close>, \<^verbatim>\<open>moduleName\<close>) may hold anything.\<close>

definition initialState :: "'n \<Rightarrow> 'e \<Rightarrow> string \<Rightarrow> ('n, 'e) AppState" where
  "initialState n e m = \<lparr>nodes = n, edges = e, moduleName = m, history = [], historyIndex = - 1\<rparr>"


section \<open>Example declarations\<close>

text \<open>Concrete declarations on which the theorems below are instantiated.\<close>

definition var_a :: VisualDeclaration where
  "var_a = \<lparr>decl_id = ''n1'', kind = KVar, name = ''a'', type = [], params = [], body = [],
            role = None, pure = None\<rparr>"

definition var_b :: VisualDeclaration where
  "var_b = \<lparr>decl_id = ''n2'', kind = KVar, name = ''b'', type = [], params = [], body = [],
            role = None, pure = None\<rparr>"

definition type_T :: VisualDeclaration where
  "type_T = \<lparr>decl_id = ''n3'', kind = KType, name = ''T'', type = [], params = [], body = [],
             role = None, pure = None\<rparr>"





text \<open>What the specification says \<^verbatim>\<open>collectUniqueParams\<close> collects, written without the
  \<^verbatim>\<open>Map\<close>: \<open>paramOf\<close> is the name and type one piece of a parameter list
  declares (no entry for an empty name, \<^verbatim>\<open>int\<close> for a missing or empty type), and
  \<open>paramOccurrences\<close> lists every such pair of the actions in order, duplicates
  included. The source does not call them; the theorems compare
  \<^const>\<open>collectUniqueParams\<close> with them.\<close>

definition paramOf :: "string \<Rightarrow> (string \<times> string) option" where
  "paramOf part =
     (case map trim (split_str CHR '':'' part) of
        [] \<Rightarrow> None
      | n # rest \<Rightarrow>
          (if n = [] then None
           else Some (n, (case rest of [] \<Rightarrow> ''int'' | t # _ \<Rightarrow> orElse t ''int''))))"

definition paramOccurrences :: "VisualDeclaration list \<Rightarrow> (string \<times> string) list" where
  "paramOccurrences actions =
     concat (map (\<lambda>a. if trim (params a) = [] then []
                      else List.map_filter paramOf (split_str CHR '','' (params a))) actions)"

definition step_a :: VisualDeclaration where
  "step_a = \<lparr>decl_id = ''n7'', kind = KAction, name = ''a'', type = [], params = ''x: int'',
             body = ''true'', role = Some RStep, pure = None\<rparr>"

definition step_b :: VisualDeclaration where
  "step_b = \<lparr>decl_id = ''n8'', kind = KAction, name = ''b'', type = [], params = ''x: bool'',
             body = ''true'', role = Some RStep, pure = None\<rparr>"

definition init_setup :: VisualDeclaration where
  "init_setup = \<lparr>decl_id = ''n9'', kind = KAction, name = ''setup'', type = [], params = [],
                 body = ''true'', role = Some RInit, pure = None\<rparr>"

definition init_seed :: VisualDeclaration where
  "init_seed = \<lparr>decl_id = ''n10'', kind = KAction, name = ''seed'', type = [], params = [],
                body = ''true'', role = Some RInit, pure = None\<rparr>"

definition act_init :: VisualDeclaration where
  "act_init = \<lparr>decl_id = ''n11'', kind = KAction, name = ''init'', type = [], params = [],
               body = ''true'', role = Some RInit, pure = None\<rparr>"

definition act_step :: VisualDeclaration where
  "act_step = \<lparr>decl_id = ''n12'', kind = KAction, name = ''step'', type = [], params = [],
               body = ''true'', role = Some RStep, pure = None\<rparr>"

definition val_safe :: VisualDeclaration where
  "val_safe = \<lparr>decl_id = ''n13'', kind = KVal, name = ''safe'', type = [], params = [],
               body = ''true'', role = Some RInvariant, pure = None\<rparr>"

text \<open>The invariant of the history: at most 50 entries, and the index is \<open>-1\<close> or
  points at an entry.\<close>

definition historyInv :: "('n, 'e, 'z) AppState_scheme \<Rightarrow> bool" where
  "historyInv s \<longleftrightarrow>
     length (history s) \<le> 50 \<and> - 1 \<le> historyIndex s \<and> historyIndex s < int (length (history s))"









text \<open>An init-role action and a step-role action whose name field is empty, as
  \<^verbatim>\<open>createDeclaration\<close> leaves it, a step-role action with three parameters, and a node
  without a parent.\<close>

definition anon_init :: VisualDeclaration where
  "anon_init = \<lparr>decl_id = ''n14'', kind = KAction, name = [], type = [], params = [],
                body = ''true'', role = Some RInit, pure = None\<rparr>"

definition anon_step :: VisualDeclaration where
  "anon_step = \<lparr>decl_id = ''n15'', kind = KAction, name = [], type = [], params = ''n'',
                body = ''true'', role = Some RStep, pure = None\<rparr>"

definition step_transfer :: VisualDeclaration where
  "step_transfer = \<lparr>decl_id = ''n16'', kind = KAction, name = ''transfer'', type = [],
                    params = ''src: str, dst: str, amount'', body = ''true'',
                    role = Some RStep, pure = None\<rparr>"


section \<open>Properties of the generator\<close>

lemma split_str_not_Nil: "split_str c s \<noteq> []"
  by (induction s) (auto split: list.splits)

lemma declToQuint_unnamed_shape:
  "\<exists>pre post. declToQuint (d\<lparr>name := []\<rparr>) = pre @ kindText (kind d) @ '' _unnamed'' @ post"
proof (cases "kind d")
  case KVar
  then show ?thesis
    by (intro exI[of _ "''  ''"] exI[of _ "'': '' @ orElse (type d) ''int''"])
       (simp add: declToQuint_def orElse_def)
next
  case KConst
  then show ?thesis
    by (intro exI[of _ "''  ''"] exI[of _ "'': '' @ orElse (type d) ''int''"])
       (simp add: declToQuint_def orElse_def)
next
  case KVal
  then show ?thesis
    by (intro exI[of _ "''  '' @ (if pure d = Some True then ''pure '' else [])"]
           exI[of _ "(if type d \<noteq> [] then '': '' @ type d else []) @ '' = '' @ orElse (body d) ''???''"])
       (simp add: declToQuint_def orElse_def)
next
  case KType
  then show ?thesis
    by (intro exI[of _ "''  ''"] exI[of _ "'' = '' @ orElse (body d) ''int''"])
       (simp add: declToQuint_def orElse_def)
next
  case KAssume
  then show ?thesis
    by (intro exI[of _ "''  ''"] exI[of _ "'' = '' @ orElse (body d) ''true''"])
       (simp add: declToQuint_def orElse_def)
next
  case KDef
  define hd where "hd = (if params d \<noteq> [] then ''('' @ params d @ '')'' else []) @ (if type d \<noteq> [] then '': '' @ type d else [])"
  define b where "b = orElse (body d) ''???''"
  show ?thesis
    using KDef
    by (intro exI[of _ "''  '' @ (if pure d = Some True then ''pure '' else [])"]
           exI[of _ "hd @ (if CHR 0x0A \<in> set b then '' = {\<newline>'' @ indentLines b ''    '' @ ''\<newline>  }'' else '' = '' @ b)"])
       (simp add: declToQuint_def orElse_def hd_def b_def Let_def)
next
  case KAction
  define hd where "hd = (if params d \<noteq> [] then ''('' @ params d @ '')'' else []) @ (if type d \<noteq> [] then '': '' @ type d else [])"
  define b where "b = orElse (body d) ''???''"
  show ?thesis
    using KAction
    by (intro exI[of _ "''  ''"]
           exI[of _ "hd @ (if CHR 0x0A \<in> set b then (if \<not> hasBindings b \<and> \<not> alreadyWrapped b then '' = all {\<newline>'' @ clausesOf b @ ''\<newline>  }'' else '' = {\<newline>'' @ indentLines b ''    '' @ ''\<newline>  }'') else '' = '' @ b)"])
       (simp add: declToQuint_def orElse_def hd_def b_def Let_def)
qed

lemma declToQuint_unnamed_eq:
  "declToQuint (d\<lparr>name := []\<rparr>) = declToQuint (d\<lparr>name := ''_unnamed''\<rparr>)"
  by (cases "kind d") (simp_all add: declToQuint_def orElse_def Let_def)

text \<open>
  Claim C1. \<^const>\<open>declsToQuint\<close> is a total function: no path of the source raises on
  declarations of the declared type, so the model has no error value and every call
  returns a string. For every module name and every list of declarations the result is
  \<^verbatim>\<open>module <id> {\<close>, a line break, a body and \<^verbatim>\<open>}\<close>, where the identifier is the
  given name, or \<^verbatim>\<open>Unnamed\<close> when the name is empty; the empty list gives the
  envelope with nothing between the line break and the closing brace; and a declaration
  with the empty name is rendered exactly as the same declaration named
  \<^verbatim>\<open>_unnamed\<close>, the placeholder standing right behind the keyword of its kind.
\<close>

theorem declsToQuint_envelope:
  "(\<exists>b. declsToQuint m ds =
          ''module '' @ (if m = [] then ''Unnamed'' else m) @ '' {\<newline>'' @ b @ ''}'')
   \<and> declsToQuint m [] = ''module '' @ (if m = [] then ''Unnamed'' else m) @ '' {\<newline>}''
   \<and> (\<exists>pre post. declToQuint (d\<lparr>name := []\<rparr>) = pre @ kindText (kind d) @ '' _unnamed'' @ post)
   \<and> declToQuint (d\<lparr>name := []\<rparr>) = declToQuint (d\<lparr>name := ''_unnamed''\<rparr>)"
proof -
  have env: "\<exists>b. declsToQuint m ds =
          ''module '' @ (if m = [] then ''Unnamed'' else m) @ '' {\<newline>'' @ b @ ''}''"
  proof (cases "ds = []")
    case True
    then show ?thesis
      by (intro exI[of _ "[]"]) (simp add: declsToQuint_def orElse_def)
  next
    case False
    then show ?thesis
      by (intro exI[of _ "join_str ''\<newline>\<newline>'' (map declToQuint (sortedDecls ds) @ generateCombinedActions ds) @ ''\<newline>''"])
         (simp add: declsToQuint_def orElse_def Let_def)
  qed
  have empty: "declsToQuint m [] = ''module '' @ (if m = [] then ''Unnamed'' else m) @ '' {\<newline>}''"
    by (simp add: declsToQuint_def orElse_def)
  from env empty declToQuint_unnamed_shape declToQuint_unnamed_eq show ?thesis
    by blast
qed


theorem declsToQuint_envelope_witness:
  "declsToQuint [] [] = ''module Unnamed {\<newline>}''
   \<and> declsToQuint ''Bank''
        [\<lparr>decl_id = ''n1'', kind = KVar, name = [], type = [], params = [], body = [],
          role = None, pure = None\<rparr>] =
       ''module Bank {\<newline>  var _unnamed: int\<newline>}''
   \<and> declToQuint \<lparr>decl_id = ''n1'', kind = KVar, name = [], type = [], params = [], body = [],
          role = None, pure = None\<rparr> = ''  var _unnamed: int''"
proof -
  have run: "declsToQuint ''Bank''
        [\<lparr>decl_id = ''n1'', kind = KVar, name = [], type = [], params = [], body = [],
          role = None, pure = None\<rparr>] =
       ''module Bank {\<newline>  var _unnamed: int\<newline>}''"
    by code_simp
  have named: "declToQuint \<lparr>decl_id = ''n1'', kind = KVar, name = ''_unnamed'', type = [],
          params = [], body = [], role = None, pure = None\<rparr> = ''  var _unnamed: int''"
    by code_simp
  show ?thesis
    using declsToQuint_envelope [of "[]" "[]"
      "\<lparr>decl_id = ''n1'', kind = KVar, name = [], type = [], params = [], body = [],
        role = None, pure = None\<rparr>"] run named
    by simp
qed

lemma KIND_ORDER_inj: "KIND_ORDER k = KIND_ORDER k' \<longleftrightarrow> k = k'"
  by (cases k; cases k') simp_all

lemma sortedDecls_sorted: "sorted (map (\<lambda>d. KIND_ORDER (kind d)) (sortedDecls ds))"
  by (simp add: sortedDecls_def)

lemma sortedDecls_mset: "mset (sortedDecls ds) = mset ds"
  by (simp add: sortedDecls_def)

lemma sortedDecls_stable:
  "filter (\<lambda>d. kind d = k) (sortedDecls ds) = filter (\<lambda>d. kind d = k) ds"
proof -
  have "filter (\<lambda>d. KIND_ORDER (kind d) = KIND_ORDER k) (sortedDecls ds) =
        filter (\<lambda>d. KIND_ORDER (kind d) = KIND_ORDER k) ds"
    unfolding sortedDecls_def by (rule sort_key_stable)
  then show ?thesis by (simp add: KIND_ORDER_inj)
qed

text \<open>
  Claim C2. For a non-empty list the output is the envelope around the fragments of
  \<^const>\<open>sortedDecls\<close> followed by the synthesized ones, joined by blank lines. The
  sorted list holds the same declarations, its kinds are ascending in the priority
  \<^verbatim>\<open>type, const, var, val, def, action, assume\<close> whatever the insertion order was, and
  for every kind the declarations of that kind stand in the order they have in the input
  (the sort is stable).
\<close>

theorem declsToQuint_kind_order:
  "(ds \<noteq> [] \<longrightarrow>
      declsToQuint m ds =
        ''module '' @ (if m = [] then ''Unnamed'' else m) @ '' {\<newline>'' @
        join_str ''\<newline>\<newline>'' (map declToQuint (sortedDecls ds) @ generateCombinedActions ds) @
        ''\<newline>}'')
   \<and> mset (sortedDecls ds) = mset ds
   \<and> sorted (map (\<lambda>d. KIND_ORDER (kind d)) (sortedDecls ds))
   \<and> map KIND_ORDER [KType, KConst, KVar, KVal, KDef, KAction, KAssume] = [0, 1, 2, 3, 4, 5, 6]
   \<and> filter (\<lambda>d. kind d = k) (sortedDecls ds) = filter (\<lambda>d. kind d = k) ds"
proof -
  have "declsToQuint m ds =
        ''module '' @ (if m = [] then ''Unnamed'' else m) @ '' {\<newline>'' @
        join_str ''\<newline>\<newline>'' (map declToQuint (sortedDecls ds) @ generateCombinedActions ds) @
        ''\<newline>}''" if "ds \<noteq> []"
    using that by (simp add: declsToQuint_def orElse_def Let_def)
  moreover have "map KIND_ORDER [KType, KConst, KVar, KVal, KDef, KAction, KAssume] = [0, 1, 2, 3, 4, 5, 6]"
    by simp
  ultimately show ?thesis
    using sortedDecls_mset [of ds] sortedDecls_sorted [of ds] sortedDecls_stable [of k ds]
    by blast
qed

theorem declsToQuint_kind_order_witness:
  "declsToQuint ''M'' [var_b, var_a, type_T] =
     ''module M {\<newline>  type T = int\<newline>\<newline>  var b: int\<newline>\<newline>  var a: int\<newline>}''
   \<and> filter (\<lambda>d. kind d = KVar) (sortedDecls [var_b, var_a, type_T]) = [var_b, var_a]"
proof -
  have "declsToQuint ''M'' [var_b, var_a, type_T] =
     ''module M {\<newline>  type T = int\<newline>\<newline>  var b: int\<newline>\<newline>  var a: int\<newline>}''"
    by code_simp
  then show ?thesis
    using declsToQuint_kind_order [of "[var_b, var_a, type_T]" "''M''" KVar]
    by (simp add: var_a_def var_b_def type_T_def)
qed

lemma sorted_kinds_perm:
  assumes "mset ds = mset ds'"
  shows "map kind (sortedDecls ds) = map kind (sortedDecls ds')"
proof -
  let ?f = "\<lambda>d. KIND_ORDER (kind d)"
  have "sort (map ?f ds) = map ?f (sortedDecls ds)"
    by (rule properties_for_sort) (simp_all add: sortedDecls_def)
  moreover have "sort (map ?f ds) = map ?f (sortedDecls ds')"
  proof (rule properties_for_sort)
    have "mset (map ?f (sortedDecls ds')) = image_mset ?f (mset ds')"
      by (simp add: sortedDecls_def)
    then show "mset (map ?f (sortedDecls ds')) = mset (map ?f ds)"
      using assms by simp
    show "sorted (map ?f (sortedDecls ds'))"
      by (rule sortedDecls_sorted)
  qed
  ultimately have "map KIND_ORDER (map kind (sortedDecls ds)) = map KIND_ORDER (map kind (sortedDecls ds'))"
    by (simp add: comp_def)
  moreover have "inj KIND_ORDER"
    by (simp add: inj_def KIND_ORDER_inj)
  ultimately show ?thesis
    by (simp only: inj_map_eq_map)
qed

lemma sortedDecls_perm_stable:
  assumes "mset ds = mset ds'"
    and "\<And>k. filter (\<lambda>d. kind d = k) ds = filter (\<lambda>d. kind d = k) ds'"
  shows "sortedDecls ds = sortedDecls ds'"
  unfolding sortedDecls_def [of ds]
proof (rule properties_for_sort_key)
  show "mset (sortedDecls ds') = mset ds"
    using assms(1) by (simp add: sortedDecls_mset)
  show "sorted (map (\<lambda>d. KIND_ORDER (kind d)) (sortedDecls ds'))"
    by (rule sortedDecls_sorted)
  fix k
  have "filter (\<lambda>x. kind k = kind x) (sortedDecls ds') = filter (\<lambda>x. kind k = kind x) ds"
    using sortedDecls_stable [of "kind k" ds'] assms(2) [of "kind k"] by (simp add: eq_commute)
  then show "filter (\<lambda>x. KIND_ORDER (kind k) = KIND_ORDER (kind x)) (sortedDecls ds') =
        filter (\<lambda>x. KIND_ORDER (kind k) = KIND_ORDER (kind x)) ds"
    by (simp add: KIND_ORDER_inj)
qed

text \<open>
  Claim C3, as stated, fails: two collections with the same declarations in another
  insertion order give another order of the rendered declarations as soon as two
  declarations share a kind, because the stable sort keeps their insertion order.
\<close>

theorem insertion_order_counterexample:
  "mset [var_a, var_b] = mset [var_b, var_a]
   \<and> map declToQuint (sortedDecls [var_a, var_b]) = [''  var a: int'', ''  var b: int'']
   \<and> map declToQuint (sortedDecls [var_b, var_a]) = [''  var b: int'', ''  var a: int'']
   \<and> declsToQuint ''M'' [var_a, var_b] \<noteq> declsToQuint ''M'' [var_b, var_a]"
  apply (intro conjI)
     apply (simp add: var_a_def var_b_def)
    apply code_simp
   apply code_simp
  apply code_simp
  done

text \<open>
  Claim C3, amended. For two collections with the same declarations in any insertion
  order, the rendered declarations have the same kinds at the same positions, ascending
  in the fixed kind priority; and when the declarations of each kind stand in the same
  relative order in both collections, the rendered declarations are identical, in the
  same order.
\<close>

theorem insertion_order_by_kind:
  assumes "mset ds = mset ds'"
  shows "map kind (sortedDecls ds) = map kind (sortedDecls ds')
    \<and> sorted (map (\<lambda>d. KIND_ORDER (kind d)) (sortedDecls ds))
    \<and> sorted (map (\<lambda>d. KIND_ORDER (kind d)) (sortedDecls ds'))
    \<and> ((\<forall>k. filter (\<lambda>d. kind d = k) ds = filter (\<lambda>d. kind d = k) ds') \<longrightarrow>
         map declToQuint (sortedDecls ds) = map declToQuint (sortedDecls ds'))"
  using assms sorted_kinds_perm [of ds ds'] sortedDecls_perm_stable [of ds ds']
    sortedDecls_sorted [of ds] sortedDecls_sorted [of ds']
  by auto

theorem insertion_order_by_kind_witness:
  "mset [var_a, type_T] = mset [type_T, var_a]
   \<and> map kind (sortedDecls [var_a, type_T]) = map kind (sortedDecls [type_T, var_a])
   \<and> map declToQuint (sortedDecls [var_a, type_T]) = map declToQuint (sortedDecls [type_T, var_a])"
proof -
  have m: "mset [var_a, type_T] = mset [type_T, var_a]"
    by simp
  have f: "filter (\<lambda>d. kind d = k) [var_a, type_T] = filter (\<lambda>d. kind d = k) [type_T, var_a]" for k
    by (cases k) (simp_all add: var_a_def type_T_def)
  show ?thesis
    using insertion_order_by_kind [OF m] m f by blast
qed





lemma combinedInit_prefix: "filter (prefix ''  action init'') (combinedInit ds) = combinedInit ds"
  by (simp add: combinedInit_def Let_def split: list.splits)

lemma combinedStep_prefix: "filter (prefix ''  action step'') (combinedStep ds) = combinedStep ds"
  by (simp add: combinedStep_def Let_def)

lemma combinedRun_prefix: "filter (prefix ''  run '') (combinedRun ds) = combinedRun ds"
  by (simp add: combinedRun_def)

lemma combinedInit_not_step: "filter (prefix ''  action step'') (combinedInit ds) = []"
  by (simp add: combinedInit_def Let_def split: list.splits)

lemma combinedInit_not_run: "filter (prefix ''  run '') (combinedInit ds) = []"
  by (simp add: combinedInit_def Let_def split: list.splits)

lemma combinedStep_not_init: "filter (prefix ''  action init'') (combinedStep ds) = []"
  by (simp add: combinedStep_def Let_def)

lemma combinedStep_not_run: "filter (prefix ''  run '') (combinedStep ds) = []"
  by (simp add: combinedStep_def Let_def)

lemma combinedRun_not_init: "filter (prefix ''  action init'') (combinedRun ds) = []"
  by (simp add: combinedRun_def)

lemma combinedRun_not_step: "filter (prefix ''  action step'') (combinedRun ds) = []"
  by (simp add: combinedRun_def)

lemma synthesized_init: "filter (prefix ''  action init'') (generateCombinedActions ds) = combinedInit ds"
  by (simp add: generateCombinedActions_def combinedInit_prefix combinedStep_not_init combinedRun_not_init)

lemma synthesized_step: "filter (prefix ''  action step'') (generateCombinedActions ds) = combinedStep ds"
  by (simp add: generateCombinedActions_def combinedStep_prefix combinedInit_not_step combinedRun_not_step)

lemma synthesized_run: "filter (prefix ''  run '') (generateCombinedActions ds) = combinedRun ds"
  by (simp add: generateCombinedActions_def combinedRun_prefix combinedInit_not_run combinedStep_not_run)

lemma hasExplicitInit_iff: "hasExplicitInit ds \<longleftrightarrow> (\<exists>d\<in>set ds. name d = ''init'' \<and> kind d = KAction)"
  by (simp add: hasExplicitInit_def list_ex_iff)

lemma hasExplicitStep_iff: "hasExplicitStep ds \<longleftrightarrow> (\<exists>d\<in>set ds. name d = ''step'' \<and> kind d = KAction)"
  by (simp add: hasExplicitStep_def list_ex_iff)

lemma needsInit_iff: "needsInit ds \<longleftrightarrow> \<not> hasExplicitInit ds \<and> initActions ds \<noteq> []"
proof -
  have "name a \<noteq> ''init''" if "\<not> hasExplicitInit ds" "a \<in> set (initActions ds)" for a
    using that by (auto simp: hasExplicitInit_iff initActions_def)
  then show ?thesis
    unfolding needsInit_def
    by (cases "initActions ds" rule: remdups_adj.cases) auto
qed

lemma needsStep_iff: "needsStep ds \<longleftrightarrow> \<not> hasExplicitStep ds \<and> stepActions ds \<noteq> []"
proof -
  have "name a \<noteq> ''step''" if "\<not> hasExplicitStep ds" "a \<in> set (stepActions ds)" for a
    using that by (auto simp: hasExplicitStep_iff stepActions_def)
  then show ?thesis
    unfolding needsStep_def
    by (cases "stepActions ds" rule: remdups_adj.cases) auto
qed

text \<open>
  The initializer synthesis as the code performs it, for every collection. Among the
  synthesized declarations there is an \<^verbatim>\<open>action init\<close> exactly when no declaration is
  an action named \<^verbatim>\<open>init\<close> and some action carries the init role: with exactly one
  such action it is \<^verbatim>\<open>action init = \<close> followed by the name field of that action,
  with more than one it is an \<^verbatim>\<open>all { }\<close> block listing their name fields without
  arguments. The name fields are written as they are, also when they are empty. For a
  collection of one action named \<^verbatim>\<open>init\<close>, the only fragment of the module that
  declares \<^verbatim>\<open>action init\<close> is the rendering of that action.
\<close>

theorem init_synthesis:
  "(let inits = filter (\<lambda>d. role d = Some RInit \<and> kind d = KAction) ds
    in filter (prefix ''  action init'') (generateCombinedActions ds) =
       (if (\<exists>d\<in>set ds. name d = ''init'' \<and> kind d = KAction) then []
        else if length inits = 1 \<and> name (hd inits) \<noteq> ''init''
          then [''  action init = '' @ name (hd inits)]
        else if length inits > 1
          then [''  action init = all {\<newline>'' @
                join_str '',\<newline>'' (map (\<lambda>a. ''    '' @ name a) inits) @ '',\<newline>  }'']
        else []))
   \<and> (kind d = KAction \<and> name d = ''init'' \<longrightarrow>
        filter (prefix ''  action init'')
          (map declToQuint (sortedDecls [d]) @ generateCombinedActions [d]) = [declToQuint d])"
proof -
  have gen: "(let inits = filter (\<lambda>d. role d = Some RInit \<and> kind d = KAction) ds
    in filter (prefix ''  action init'') (generateCombinedActions ds) =
       (if (\<exists>d\<in>set ds. name d = ''init'' \<and> kind d = KAction) then []
        else if length inits = 1 \<and> name (hd inits) \<noteq> ''init''
          then [''  action init = '' @ name (hd inits)]
        else if length inits > 1
          then [''  action init = all {\<newline>'' @
                join_str '',\<newline>'' (map (\<lambda>a. ''    '' @ name a) inits) @ '',\<newline>  }'']
        else []))"
    unfolding synthesized_init combinedInit_def needsInit_def hasExplicitInit_iff Let_def
      initActions_def [symmetric]
    by (cases "initActions ds" rule: remdups_adj.cases) auto
  have one: "filter (prefix ''  action init'')
          (map declToQuint (sortedDecls [d]) @ generateCombinedActions [d]) = [declToQuint d]"
    if "kind d = KAction" "name d = ''init''"
  proof -
    have "hasExplicitInit [d]"
      using that by (simp add: hasExplicitInit_def)
    then have "combinedInit [d] = []"
      by (simp add: combinedInit_def needsInit_def)
    moreover have "prefix ''  action init'' (declToQuint d)"
      using that by (simp add: declToQuint_def orElse_def Let_def)
    ultimately show ?thesis
      by (simp add: synthesized_init sortedDecls_def)
  qed
  from gen one show ?thesis
    by blast
qed


theorem init_synthesis_witness:
  "filter (prefix ''  action init'') (generateCombinedActions [init_setup, init_seed]) =
     [''  action init = all {\<newline>    setup,\<newline>    seed,\<newline>  }'']
   \<and> filter (prefix ''  action init'') (generateCombinedActions [init_setup]) =
     [''  action init = setup'']
   \<and> filter (prefix ''  action init'')
        (map declToQuint (sortedDecls [act_init]) @ generateCombinedActions [act_init]) =
     [''  action init = true'']"
proof -
  have k: "kind act_init = KAction \<and> name act_init = ''init''"
    by (simp add: act_init_def)
  have "filter (prefix ''  action init'') (generateCombinedActions [init_setup, init_seed]) =
     [''  action init = all {\<newline>    setup,\<newline>    seed,\<newline>  }'']"
    by code_simp
  moreover have "filter (prefix ''  action init'') (generateCombinedActions [init_setup]) =
     [''  action init = setup'']"
    by code_simp
  moreover have "declToQuint act_init = ''  action init = true''"
    by code_simp
  ultimately show ?thesis
    using init_synthesis [of "[init_setup, init_seed]" act_init] k by simp
qed

text \<open>
  Claim C5 says that the synthesized initializer invokes the init-role action, or each of
  them. The code misses that for an init-role action whose name is empty: the action is
  rendered under the placeholder \<^verbatim>\<open>_unnamed\<close>, but the forwarder is built from the raw
  name field and reads \<^verbatim>\<open>action init = \<close> with nothing behind the equals sign, and in
  the block of several initializers such an action leaves an empty entry. Elsewhere the
  source guards the same field: \<^verbatim>\<open>declToQuint\<close> substitutes the placeholder and the
  invariant filter skips empty names.
\<close>

theorem init_forwarder_unnamed:
  "declToQuint anon_init = ''  action _unnamed = true''
   \<and> generateCombinedActions [anon_init] = [''  action init = '']
   \<and> declsToQuint ''M'' [anon_init] =
       ''module M {\<newline>  action _unnamed = true\<newline>\<newline>  action init = \<newline>}''
   \<and> generateCombinedActions [init_setup, anon_init] =
       [''  action init = all {\<newline>    setup,\<newline>    ,\<newline>  }'']"
  by (intro conjI; code_simp)

lemma addParam_paramOf:
  "addParam part seen =
     (case paramOf part of
        None \<Rightarrow> seen
      | Some p \<Rightarrow> if map_of seen (fst p) = None then seen @ [p] else seen)"
  by (cases "map trim (split_str CHR '':'' part)") (auto simp: addParam_def paramOf_def)

lemma map_of_append_known:
  assumes "map_of seen n \<noteq> None"
  shows "map_of (seen @ (n, t) # xs) = map_of (seen @ xs)"
proof
  fix k
  show "map_of (seen @ (n, t) # xs) k = map_of (seen @ xs) k"
    using assms by (cases "k = n") (auto simp: map_add_def split: option.splits)
qed

lemma fold_addParam:
  assumes "distinct (map fst seen)"
  shows "distinct (map fst (fold addParam parts seen))
     \<and> map_of (fold addParam parts seen) = map_of (seen @ List.map_filter paramOf parts)
     \<and> set (map fst (fold addParam parts seen)) =
         set (map fst seen) \<union> set (map fst (List.map_filter paramOf parts))"
  using assms
proof (induction parts arbitrary: seen)
  case Nil
  then show ?case by (simp add: map_filter_simps)
next
  case (Cons p parts)
  show ?case
  proof (cases "paramOf p")
    case None
    then have "addParam p seen = seen"
      by (simp add: addParam_paramOf)
    with Cons None show ?thesis
      by (simp add: map_filter_simps)
  next
    case (Some nt)
    obtain n t where nt: "nt = (n, t)" by (cases nt)
    show ?thesis
    proof (cases "map_of seen n = None")
      case True
      then have a: "addParam p seen = seen @ [(n, t)]"
        using Some nt by (simp add: addParam_paramOf)
      from True have "n \<notin> fst ` set seen"
        by (simp add: map_of_eq_None_iff)
      with Cons.prems have "distinct (map fst (seen @ [(n, t)]))"
        by simp
      from Cons.IH [OF this] show ?thesis
        using Some nt a by (simp add: map_filter_simps)
    next
      case False
      then have a: "addParam p seen = seen"
        using Some nt by (simp add: addParam_paramOf)
      from False have "n \<in> fst ` set seen"
        by (simp add: map_of_eq_None_iff)
      then have "fst ` set seen \<union> fst ` set (List.map_filter paramOf parts) =
          insert n (fst ` set seen \<union> fst ` set (List.map_filter paramOf parts))"
        by auto
      with Cons.IH [OF Cons.prems] show ?thesis
        using Some nt a map_of_append_known [OF False]
        by (simp add: map_filter_simps)
    qed
  qed
qed

lemma collect_fold:
  assumes "distinct (map fst seen)"
  shows "(let r = fold (\<lambda>a seen. if trim (params a) = [] then seen
                     else fold addParam (split_str CHR '','' (params a)) seen) actions seen
     in distinct (map fst r)
      \<and> map_of r = map_of (seen @ paramOccurrences actions)
      \<and> set (map fst r) = set (map fst seen) \<union> set (map fst (paramOccurrences actions)))"
  using assms
proof (induction actions arbitrary: seen)
  case Nil
  then show ?case by (simp add: paramOccurrences_def)
next
  case (Cons a actions)
  show ?case
  proof (cases "trim (params a) = []")
    case True
    with Cons show ?thesis
      by (simp add: paramOccurrences_def Let_def)
  next
    case False
    define seen' where "seen' = fold addParam (split_str CHR '','' (params a)) seen"
    define occ where "occ = List.map_filter paramOf (split_str CHR '','' (params a))"
    from fold_addParam [OF Cons.prems, of "split_str CHR '','' (params a)"]
    have d: "distinct (map fst seen')" and m: "map_of seen' = map_of (seen @ occ)"
      and s: "set (map fst seen') = set (map fst seen) \<union> set (map fst occ)"
      by (simp_all add: seen'_def occ_def)
    have po: "paramOccurrences (a # actions) = occ @ paramOccurrences actions"
      using False by (simp add: paramOccurrences_def occ_def)
    from m have "map_of (seen' @ paramOccurrences actions) = map_of (seen @ occ @ paramOccurrences actions)"
      by (simp add: map_of_append del: append_assoc flip: append_assoc)
    with Cons.IH [OF d] s po False show ?thesis
      by (simp add: Let_def seen'_def [symmetric] Un_assoc)
  qed
qed

lemma collectUniqueParams_first_wins:
  "distinct (map fst (collectUniqueParams actions))
   \<and> map_of (collectUniqueParams actions) = map_of (paramOccurrences actions)
   \<and> set (map fst (collectUniqueParams actions)) = set (map fst (paramOccurrences actions))"
  using collect_fold [of "[]" actions] by (simp add: collectUniqueParams_def Let_def)

lemma paramOf_name:
  "paramOf p = (if trim (hd (split_str CHR '':'' p)) = [] then None
                else Some (trim (hd (split_str CHR '':'' p)),
                  (case tl (split_str CHR '':'' p) of [] \<Rightarrow> ''int'' | t # _ \<Rightarrow> orElse (trim t) ''int'')))"
  using split_str_not_Nil [of "CHR '':''" p]
  by (cases "split_str CHR '':'' p") (auto simp: paramOf_def split: list.splits)

lemma names_of_parts:
  "filter (\<lambda>n. n \<noteq> []) (map (\<lambda>p. trim (hd (split_str CHR '':'' p))) parts) =
   map fst (List.map_filter paramOf parts)"
  by (induction parts) (simp_all add: map_filter_simps paramOf_name)

lemma parseParamNames_occurrences:
  "parseParamNames (params a) = map fst (paramOccurrences [a])"
  by (simp add: parseParamNames_def paramOccurrences_def names_of_parts)

lemma call_args_bound:
  assumes "a \<in> set actions"
  shows "set (parseParamNames (params a)) \<subseteq> set (map fst (collectUniqueParams actions))"
proof -
  have "set (map fst (paramOccurrences [a])) \<subseteq> set (map fst (paramOccurrences actions))"
    using assms by (auto simp: paramOccurrences_def)
  then show ?thesis
    using collectUniqueParams_first_wins [of actions]
    by (simp add: parseParamNames_occurrences)
qed


lemma split_str_absent: "c \<notin> set s \<Longrightarrow> split_str c s = [s]"
  by (induction s) auto

lemma paramOf_untyped:
  assumes "CHR '':'' \<notin> set part" and "trim part \<noteq> []"
  shows "paramOf part = Some (trim part, ''int'')"
  using assms by (simp add: paramOf_def split_str_absent)

text \<open>
  The step synthesis as the code performs it, for every collection. A combined
  \<^verbatim>\<open>action step\<close> is synthesized exactly when no declaration is an
  action named \<^verbatim>\<open>step\<close> and some action carries the step role. Its parameters are
  those of the step-role actions without duplicates: the names are distinct, they are
  the names that occur, and each name has the type of its first occurrence
  (\<^const>\<open>map_of\<close> reads the first pair of a name), \<^verbatim>\<open>int\<close> when that occurrence declares
  none. Every parameter gets one \<^verbatim>\<open>nondet\<close> binding, over \<^verbatim>\<open>Set(true, false)\<close> for
  \<^verbatim>\<open>bool\<close>, \<^verbatim>\<open>Set("a", "b", "c")\<close> for \<^verbatim>\<open>str\<close> (both compared in lower case) and
  \<^verbatim>\<open>1.to(100)\<close> otherwise; the body is an \<^verbatim>\<open>any { }\<close> choice with one entry for every
  step-role action: its name field as it is, followed by its parameter names, which are
  all the names its parameter list declares, in their order, and each of which has a
  binding. The actions \<^verbatim>\<open>a(x: int)\<close> and \<^verbatim>\<open>b(x: bool)\<close> give one binding of \<^verbatim>\<open>x\<close> over
  the integer range and the calls \<^verbatim>\<open>a(x)\<close> and \<^verbatim>\<open>b(x)\<close>.
\<close>

theorem step_synthesis:
  "(let steps = filter (\<lambda>d. role d = Some RStep \<and> kind d = KAction) ds;
        ps = collectUniqueParams steps;
        calls = join_str '',\<newline>''
                  (map (\<lambda>a. ''    '' @ name a @
                          (if join_str '', '' (parseParamNames (params a)) \<noteq> []
                           then ''('' @ join_str '', '' (parseParamNames (params a)) @ '')''
                           else [])) steps)
    in filter (prefix ''  action step'') (generateCombinedActions ds) =
         (if (\<exists>d\<in>set ds. name d = ''step'' \<and> kind d = KAction) \<or> steps = [] then []
          else [if ps = [] then ''  action step = any {\<newline>'' @ calls @ '',\<newline>  }''
                else ''  action step = {\<newline>'' @
                     join_str ''\<newline>''
                       (map (\<lambda>p. ''    nondet '' @ fst p @ '' = '' @ nondetRange (snd p) @
                                  ''.oneOf()'') ps) @
                     ''\<newline>    any {\<newline>'' @ calls @ '',\<newline>    }\<newline>  }''])
       \<and> distinct (map fst ps)
       \<and> set (map fst ps) = set (map fst (paramOccurrences steps))
       \<and> map_of ps = map_of (paramOccurrences steps)
       \<and> (\<forall>a\<in>set steps. set (parseParamNames (params a)) \<subseteq> set (map fst ps)))
   \<and> parseParamNames (params act) = map fst (paramOccurrences [act])
   \<and> (CHR '':'' \<notin> set part \<and> trim part \<noteq> [] \<longrightarrow> paramOf part = Some (trim part, ''int''))
   \<and> nondetRange t =
       (if toLowerCase t = ''bool'' then ''Set(true, false)''
        else if toLowerCase t = ''str'' then ''Set(\"a\", \"b\", \"c\")''
        else ''1.to(100)'')
   \<and> generateCombinedActions [step_a, step_b] =
       [''  action step = {\<newline>    nondet x = 1.to(100).oneOf()\<newline>    any {\<newline>    a(x),\<newline>    b(x),\<newline>    }\<newline>  }'']"
proof -
  define steps where "steps = filter (\<lambda>d. role d = Some RStep \<and> kind d = KAction) ds"
  have st: "stepActions ds = steps"
    by (simp add: stepActions_def steps_def)
  have gen: "filter (prefix ''  action step'') (generateCombinedActions ds) =
         (if (\<exists>d\<in>set ds. name d = ''step'' \<and> kind d = KAction) \<or> steps = [] then []
          else [if collectUniqueParams steps = [] then
                  ''  action step = any {\<newline>'' @ join_str '',\<newline>'' (map stepCall steps) @ '',\<newline>  }''
                else ''  action step = {\<newline>'' @
                     join_str ''\<newline>'' (map stepBinding (collectUniqueParams steps)) @
                     ''\<newline>    any {\<newline>'' @ join_str '',\<newline>'' (map stepCall steps) @
                     '',\<newline>    }\<newline>  }''])"
    unfolding synthesized_step combinedStep_def needsStep_iff hasExplicitStep_iff st
    by (simp add: Let_def)
  have calls: "stepCall = (\<lambda>a. ''    '' @ name a @
                          (if join_str '', '' (parseParamNames (params a)) \<noteq> []
                           then ''('' @ join_str '', '' (parseParamNames (params a)) @ '')''
                           else []))"
    by (rule ext) (simp add: stepCall_def Let_def)
  have binds: "stepBinding = (\<lambda>p. ''    nondet '' @ fst p @ '' = '' @ nondetRange (snd p) @
                                  ''.oneOf()'')"
    by (rule ext) (simp add: stepBinding_def)
  have args: "\<forall>a\<in>set steps. set (parseParamNames (params a)) \<subseteq> set (map fst (collectUniqueParams steps))"
    using call_args_bound by blast
  have range: "nondetRange t =
       (if toLowerCase t = ''bool'' then ''Set(true, false)''
        else if toLowerCase t = ''str'' then ''Set(\"a\", \"b\", \"c\")''
        else ''1.to(100)'')"
    by (simp add: nondetRange_def Let_def)
  have ex: "generateCombinedActions [step_a, step_b] =
       [''  action step = {\<newline>    nondet x = 1.to(100).oneOf()\<newline>    any {\<newline>    a(x),\<newline>    b(x),\<newline>    }\<newline>  }'']"
    by code_simp
  have untyped: "CHR '':'' \<notin> set part \<and> trim part \<noteq> [] \<longrightarrow> paramOf part = Some (trim part, ''int'')"
    using paramOf_untyped by blast
  show ?thesis
    unfolding Let_def steps_def [symmetric]
    using gen [unfolded calls binds] collectUniqueParams_first_wins [of steps] args range ex untyped
      parseParamNames_occurrences [of act]
    by (intro conjI) simp_all
qed

theorem step_synthesis_witness:
  "filter (prefix ''  action step'') (generateCombinedActions [step_a, step_b]) =
     [''  action step = {\<newline>    nondet x = 1.to(100).oneOf()\<newline>    any {\<newline>    a(x),\<newline>    b(x),\<newline>    }\<newline>  }'']
   \<and> paramOccurrences [step_a, step_b] = [(''x'', ''int''), (''x'', ''bool'')]
   \<and> collectUniqueParams [step_a, step_b] = [(''x'', ''int'')]
   \<and> paramOf '' y '' = Some (''y'', ''int'')
   \<and> nondetRange ''Bool'' = ''Set(true, false)''
   \<and> parseParamNames (params step_transfer) = [''src'', ''dst'', ''amount'']
   \<and> generateCombinedActions [step_transfer] =
       [''  action step = {\<newline>    nondet src = Set(\"a\", \"b\", \"c\").oneOf()\<newline>    nondet dst = Set(\"a\", \"b\", \"c\").oneOf()\<newline>    nondet amount = 1.to(100).oneOf()\<newline>    any {\<newline>    transfer(src, dst, amount),\<newline>    }\<newline>  }'']"
proof -
  have "filter (prefix ''  action step'') (generateCombinedActions [step_a, step_b]) =
     [''  action step = {\<newline>    nondet x = 1.to(100).oneOf()\<newline>    any {\<newline>    a(x),\<newline>    b(x),\<newline>    }\<newline>  }'']"
    by code_simp
  moreover have "paramOccurrences [step_a, step_b] = [(''x'', ''int''), (''x'', ''bool'')]"
    by code_simp
  moreover have "collectUniqueParams [step_a, step_b] = [(''x'', ''int'')]"
    by code_simp
  moreover have "paramOf '' y '' = Some (''y'', ''int'')"
    by code_simp
  moreover have "nondetRange ''Bool'' = ''Set(true, false)''"
    by code_simp
  moreover have "parseParamNames (params step_transfer) = [''src'', ''dst'', ''amount'']"
    by code_simp
  moreover have "generateCombinedActions [step_transfer] =
       [''  action step = {\<newline>    nondet src = Set(\"a\", \"b\", \"c\").oneOf()\<newline>    nondet dst = Set(\"a\", \"b\", \"c\").oneOf()\<newline>    nondet amount = 1.to(100).oneOf()\<newline>    any {\<newline>    transfer(src, dst, amount),\<newline>    }\<newline>  }'']"
    by code_simp
  ultimately show ?thesis
    using step_synthesis [of "[step_a, step_b]" step_transfer "'' y ''" "''Bool''"] by simp
qed


text \<open>
  Claim C6 says that the synthesized step invokes each step-role action with its own
  parameter names. The code misses that for a step-role action whose name is empty: the
  action is rendered under the placeholder \<^verbatim>\<open>_unnamed\<close>, but the call is built from the
  raw name field, so the entry of the \<^verbatim>\<open>any { }\<close> choice is the bare argument list
  \<^verbatim>\<open>(n)\<close> and names no action. This is the defect of claim C5 in the step block.
\<close>

theorem step_call_unnamed:
  "declToQuint anon_step = ''  action _unnamed(n) = true''
   \<and> generateCombinedActions [anon_step] =
       [''  action step = {\<newline>    nondet n = 1.to(100).oneOf()\<newline>    any {\<newline>    (n),\<newline>    }\<newline>  }'']"
  by (intro conjI; code_simp)

lemma hasInit_iff:
  "hasInit ds \<longleftrightarrow> (\<exists>d\<in>set ds. kind d = KAction \<and> (role d = Some RInit \<or> name d = ''init''))"
  by (auto simp: hasInit_def hasExplicitInit_iff initActions_def filter_empty_conv)

lemma hasStep_iff:
  "hasStep ds \<longleftrightarrow> (\<exists>d\<in>set ds. kind d = KAction \<and> (role d = Some RStep \<or> name d = ''step''))"
  by (auto simp: hasStep_def hasExplicitStep_iff stepActions_def filter_empty_conv)

lemma init_synthesized_iff:
  "(\<exists>s\<in>set (generateCombinedActions ds). prefix ''  action init'' s) \<longleftrightarrow> needsInit ds"
proof -
  have "(\<exists>s\<in>set (generateCombinedActions ds). prefix ''  action init'' s) \<longleftrightarrow>
        filter (prefix ''  action init'') (generateCombinedActions ds) \<noteq> []"
    by (simp add: filter_empty_conv)
  also have "\<dots> \<longleftrightarrow> needsInit ds"
    by (simp add: synthesized_init combinedInit_def Let_def split: list.splits)
  finally show ?thesis .
qed

lemma step_synthesized_iff:
  "(\<exists>s\<in>set (generateCombinedActions ds). prefix ''  action step'' s) \<longleftrightarrow> needsStep ds"
proof -
  have "(\<exists>s\<in>set (generateCombinedActions ds). prefix ''  action step'' s) \<longleftrightarrow>
        filter (prefix ''  action step'') (generateCombinedActions ds) \<noteq> []"
    by (simp add: filter_empty_conv)
  also have "\<dots> \<longleftrightarrow> needsStep ds"
    by (simp add: synthesized_step combinedStep_def Let_def)
  finally show ?thesis .
qed

lemma hasInit_direct_or_synthesized:
  "hasInit ds \<longleftrightarrow> (\<exists>d\<in>set ds. kind d = KAction \<and> name d = ''init'') \<or>
     (\<exists>s\<in>set (generateCombinedActions ds). prefix ''  action init'' s)"
  unfolding init_synthesized_iff needsInit_iff hasInit_def hasExplicitInit_iff by auto

lemma hasStep_direct_or_synthesized:
  "hasStep ds \<longleftrightarrow> (\<exists>d\<in>set ds. kind d = KAction \<and> name d = ''step'') \<or>
     (\<exists>s\<in>set (generateCombinedActions ds). prefix ''  action step'' s)"
  unfolding step_synthesized_iff needsStep_iff hasStep_def hasExplicitStep_iff by auto

text \<open>
  Claim C7. A \<^verbatim>\<open>run\<close> declaration is synthesized exactly when some action is named
  \<^verbatim>\<open>init\<close> or carries the init role and some action is named \<^verbatim>\<open>step\<close> or carries
  the step role, which is to say that the module has an \<^verbatim>\<open>action init\<close> and an
  \<^verbatim>\<open>action step\<close>, each declared or synthesized. With at least one named
  \<^verbatim>\<open>val\<close> or \<^verbatim>\<open>def\<close> of invariant role the run is \<^verbatim>\<open>invariantTest\<close>, expecting
  the invariant names joined by \<^verbatim>\<open> and \<close> after each of 20 steps; otherwise it is
  \<^verbatim>\<open>simulationTest\<close>, with no \<^verbatim>\<open>expect\<close>.
\<close>

theorem run_synthesis:
  "(let hasI = (\<exists>d\<in>set ds. kind d = KAction \<and> (role d = Some RInit \<or> name d = ''init''));
        hasS = (\<exists>d\<in>set ds. kind d = KAction \<and> (role d = Some RStep \<or> name d = ''step''));
        invs = filter (\<lambda>d. role d = Some RInvariant \<and> name d \<noteq> [] \<and>
                            (kind d = KVal \<or> kind d = KDef)) ds
    in filter (prefix ''  run '') (generateCombinedActions ds) =
         (if hasI \<and> hasS then
            [if invs \<noteq> [] then
               ''  run invariantTest = init.then(20.reps(_ => step.expect('' @
               join_str '' and '' (map name invs) @ '')))''
             else ''  run simulationTest = init.then(20.reps(_ => step))'']
          else [])
       \<and> (hasI \<longleftrightarrow> (\<exists>d\<in>set ds. kind d = KAction \<and> name d = ''init'') \<or>
                    (\<exists>s\<in>set (generateCombinedActions ds). prefix ''  action init'' s))
       \<and> (hasS \<longleftrightarrow> (\<exists>d\<in>set ds. kind d = KAction \<and> name d = ''step'') \<or>
                    (\<exists>s\<in>set (generateCombinedActions ds). prefix ''  action step'' s)))"
proof -
  have "filter (prefix ''  run '') (generateCombinedActions ds) =
         (if hasInit ds \<and> hasStep ds then
            [if invariants ds \<noteq> [] then
               ''  run invariantTest = init.then(20.reps(_ => step.expect('' @
               join_str '' and '' (map name (invariants ds)) @ '')))''
             else ''  run simulationTest = init.then(20.reps(_ => step))'']
          else [])"
    by (simp add: synthesized_run combinedRun_def)
  then show ?thesis
    unfolding Let_def invariants_def [symmetric] hasInit_iff [symmetric] hasStep_iff [symmetric]
    using hasInit_direct_or_synthesized [of ds] hasStep_direct_or_synthesized [of ds]
    by simp
qed

theorem run_synthesis_witness:
  "filter (prefix ''  run '') (generateCombinedActions [act_init, act_step, val_safe]) =
     [''  run invariantTest = init.then(20.reps(_ => step.expect(safe)))'']
   \<and> filter (prefix ''  run '') (generateCombinedActions [act_init, act_step]) =
     [''  run simulationTest = init.then(20.reps(_ => step))'']
   \<and> filter (prefix ''  run '') (generateCombinedActions [act_init, val_safe]) = []"
proof -
  have "filter (prefix ''  run '') (generateCombinedActions [act_init, act_step, val_safe]) =
     [''  run invariantTest = init.then(20.reps(_ => step.expect(safe)))'']"
    by code_simp
  moreover have "filter (prefix ''  run '') (generateCombinedActions [act_init, act_step]) =
     [''  run simulationTest = init.then(20.reps(_ => step))'']"
    by code_simp
  moreover have "filter (prefix ''  run '') (generateCombinedActions [act_init, val_safe]) = []"
    by code_simp
  ultimately show ?thesis
    using run_synthesis [of "[act_init, act_step, val_safe]"] by simp
qed

section \<open>Properties of the history\<close>

lemma pushHistory_history:
  assumes "- 1 \<le> historyIndex s"
  shows "history (pushHistory s) =
     (let kept = take (nat (historyIndex s + 1)) (history s)
      in (if length kept < 50 then kept else tl kept) @
         [\<lparr>entry_nodes = nodes s, entry_edges = edges s, entry_moduleName = moduleName s\<rparr>])"
proof -
  have k: "slice0 (history s) (historyIndex s + 1) = take (nat (historyIndex s + 1)) (history s)"
    using assms by (simp add: slice0_def min_def)
  show ?thesis
    unfolding pushHistory_def k Let_def
    by (cases "take (nat (historyIndex s + 1)) (history s)") auto
qed

lemma pushHistory_index:
  "historyIndex (pushHistory s) = int (length (history (pushHistory s))) - 1"
  by (simp add: pushHistory_def Let_def)

lemma pushHistory_content:
  "nodes (pushHistory s) = nodes s \<and> edges (pushHistory s) = edges s \<and>
   moduleName (pushHistory s) = moduleName s"
  by (simp add: pushHistory_def Let_def)

lemma pushHistory_inv:
  assumes "historyInv s"
  shows "historyInv (pushHistory s)"
proof -
  from assms have i: "- 1 \<le> historyIndex s" and l: "length (history s) \<le> 50"
    by (simp_all add: historyInv_def)
  have "length (history (pushHistory s)) \<le> 50" "0 < length (history (pushHistory s))"
    using l by (auto simp: pushHistory_history [OF i] Let_def)
  then show ?thesis
    by (simp add: historyInv_def pushHistory_index)
qed

lemma undo_inv:
  assumes "historyInv s"
  shows "\<exists>s'. undo s = Inr s' \<and> historyInv s' \<and> history s' = history s"
  using assms by (auto simp: undo_def historyInv_def elemAt_def)

lemma redo_inv:
  assumes "historyInv s"
  shows "\<exists>s'. redo s = Inr s' \<and> historyInv s' \<and> history s' = history s"
  using assms by (auto simp: redo_def historyInv_def elemAt_def)

lemma apply_operation_inv:
  assumes "historyInv s"
  shows "\<exists>s'. apply_operation operation s = Inr s' \<and> historyInv s'"
proof (cases operation)
  case PushHistory
  then show ?thesis using pushHistory_inv [OF assms] by simp
next
  case Undo
  then show ?thesis using undo_inv [OF assms] by auto
next
  case Redo
  then show ?thesis using redo_inv [OF assms] by auto
next
  case (Edit n e m)
  then show ?thesis using assms by (simp add: historyInv_def)
qed

lemma run_inv:
  assumes "historyInv s"
  shows "\<exists>s'. run ops s = Inr s' \<and> historyInv s'"
  using assms
proof (induction ops arbitrary: s)
  case Nil
  then show ?case by simp
next
  case (Cons operation ops)
  from apply_operation_inv [OF Cons.prems, of operation]
  obtain s1 where s1: "apply_operation operation s = Inr s1" "historyInv s1"
    by blast
  from Cons.IH [OF s1(2)] s1(1) show ?case
    by simp
qed

lemma initialState_inv: "historyInv (initialState n e m)"
  by (simp add: historyInv_def initialState_def)

text \<open>
  Claim C10. From the store as it is created, every sequence of \<^verbatim>\<open>pushHistory\<close>,
  \<^verbatim>\<open>undo\<close> and \<^verbatim>\<open>redo\<close> (and of edits of the content between them) runs without an
  error and ends in a state whose history holds at most 50 entries, with the index at
  \<open>-1\<close> or at an entry. In such a state \<^verbatim>\<open>pushHistory\<close> keeps the entries up to the
  current index, dropping the redo entries behind it, drops the oldest of them when 50
  are kept, appends the snapshot of the current content, and sets the index to the last
  position, where the new snapshot stands.
\<close>

theorem history_bounded:
  "\<exists>s. run ops (initialState n e m) = Inr s
     \<and> length (history s) \<le> 50
     \<and> - 1 \<le> historyIndex s \<and> historyIndex s < int (length (history s))
     \<and> (let kept = take (nat (historyIndex s + 1)) (history s);
             entry = \<lparr>entry_nodes = nodes s, entry_edges = edges s,
                      entry_moduleName = moduleName s\<rparr>
         in history (pushHistory s) = (if length kept < 50 then kept else tl kept) @ [entry]
          \<and> length (history (pushHistory s)) \<le> 50
          \<and> historyIndex (pushHistory s) = int (length (history (pushHistory s))) - 1
          \<and> elemAt (history (pushHistory s)) (historyIndex (pushHistory s)) = Some entry)"
proof -
  from run_inv [OF initialState_inv, of ops n e m]
  obtain s where s: "run ops (initialState n e m) = Inr s" "historyInv s"
    by blast
  then have i: "- 1 \<le> historyIndex s"
    by (simp add: historyInv_def)
  have p: "historyInv (pushHistory s)"
    by (rule pushHistory_inv [OF s(2)])
  have "elemAt (history (pushHistory s)) (historyIndex (pushHistory s)) =
        Some \<lparr>entry_nodes = nodes s, entry_edges = edges s, entry_moduleName = moduleName s\<rparr>"
    unfolding pushHistory_index
    by (simp add: elemAt_def pushHistory_history [OF i] Let_def nth_append)
  with s p pushHistory_history [OF i] pushHistory_index [of s] show ?thesis
    by (auto simp: historyInv_def Let_def)
qed

theorem history_bounded_witness:
  "map_sum id (\<lambda>s. (length (history s), historyIndex s))
     (run (replicate 60 PushHistory) (initialState (0::nat) (0::nat) ''M'')) = Inr (50, 49)
   \<and> run [PushHistory, Edit 1 2 ''x'', PushHistory, Undo, Undo, Redo, Redo, Redo, PushHistory]
        (initialState (0::nat) (0::nat) ''M'') =
      Inr \<lparr>nodes = 1, edges = 2, moduleName = ''x'',
           history = [\<lparr>entry_nodes = 0, entry_edges = 0, entry_moduleName = ''M''\<rparr>,
                      \<lparr>entry_nodes = 1, entry_edges = 2, entry_moduleName = ''x''\<rparr>,
                      \<lparr>entry_nodes = 1, entry_edges = 2, entry_moduleName = ''x''\<rparr>],
           historyIndex = 2\<rparr>"
proof -
  have "map_sum id (\<lambda>s. (length (history s), historyIndex s))
     (run (replicate 60 PushHistory) (initialState (0::nat) (0::nat) ''M'')) = Inr (50, 49)"
    by code_simp
  moreover have "run [PushHistory, Edit 1 2 ''x'', PushHistory, Undo, Undo, Redo, Redo, Redo, PushHistory]
        (initialState (0::nat) (0::nat) ''M'') =
      Inr \<lparr>nodes = 1, edges = 2, moduleName = ''x'',
           history = [\<lparr>entry_nodes = 0, entry_edges = 0, entry_moduleName = ''M''\<rparr>,
                      \<lparr>entry_nodes = 1, entry_edges = 2, entry_moduleName = ''x''\<rparr>,
                      \<lparr>entry_nodes = 1, entry_edges = 2, entry_moduleName = ''x''\<rparr>],
           historyIndex = 2\<rparr>"
    by code_simp
  ultimately show ?thesis
    using history_bounded [of "replicate 60 PushHistory" "0::nat" "0::nat" "''M''"]
    by simp
qed

section \<open>Properties of the layout functions\<close>

































lemma pad_position [simp]:
  "padW (n\<lparr>position := p\<rparr>) = padW n" "padH (n\<lparr>position := p\<rparr>) = padH n"
  by (simp_all add: padW_def padH_def measuredWidth_def measuredHeight_def)











end
